theory Spec2Isabelle
  imports Complex_Main "HOL-Library.Word" "HOL-Library.Sublist"
begin

section \<open>Common types\<close>

type_synonym byte = "8 word"

text \<open>
  Go error values.  \<open>Errorf msg e\<close> is \<^verbatim>\<open>fmt.Errorf(msg + ": %w", e)\<close>, \<open>Msg\<close> an error made
  from a message alone, \<open>NegativeOffset\<close> the error of \<^verbatim>\<open>bytes.Reader.ReadAt\<close> at a negative
  offset, \<open>SeekError\<close> a failed \<^verbatim>\<open>Seek\<close>, \<open>LibError\<close> an error of a library the repository
  calls (a codec, an XML or property-list decoder) and \<open>Panic\<close> a run-time panic, which no
  caller catches.
\<close>

datatype goerr =
    EOF
  | ErrUnexpectedEOF
  | ErrInvalidType
  | ErrNotSigned
  | NegativeOffset
  | SeekError
  | UnknownHashAlgorithm "32 word"
  | LibError string
  | Msg string
  | Errorf string goerr
  | Panic

section \<open>The metadata record\<close>

text \<open>
  Modelled from the spec: the declarations of \<^verbatim>\<open>AppBundle\<close> and \<^verbatim>\<open>PKGInstallerMetadata\<close> are not
  among the source files.  The spec's data model lists AppBundle{id, shortVersion, installPath}
  and the unified metadata record; the field names are the ones the source assigns and prints.
  A field the source never assigns keeps Go's zero value (the empty string, the empty list,
  \<open>False\<close>, \<open>0\<close>).
\<close>

record AppBundle =
  ab_ID :: string
  ab_ShortVersion :: string
  ab_AppLocationPath :: string

record PKGInstallerMetadata =
  ApplicationTitle :: string
  DisplayName :: string
  BundleName :: string
  Version :: string
  PrimaryBundleIdentifier :: string
  PrimaryBundlePath :: string
  PackageIDs :: "string list"
  MinimumOperatingSystemVersion :: string
  HostArchitectures :: string
  AppBundles :: "AppBundle list"
  IsSigned :: bool
  PkgSizeMB :: rat
  SHA256Sum :: "byte list"
  SHA1Sum :: "byte list"
  MD5Sum :: "byte list"

definition zeroMetadata :: PKGInstallerMetadata where
  "zeroMetadata = \<lparr>ApplicationTitle = [], DisplayName = [], BundleName = [], Version = [],
     PrimaryBundleIdentifier = [], PrimaryBundlePath = [], PackageIDs = [],
     MinimumOperatingSystemVersion = [], HostArchitectures = [], AppBundles = [],
     IsSigned = False, PkgSizeMB = 0, SHA256Sum = [], SHA1Sum = [], MD5Sum = []\<rparr>"

section \<open>The Distribution strategy\<close>

text \<open>The struct \<^verbatim>\<open>distributionXML\<close>; its anonymous element structs are named here.\<close>

record distBundle =
  b_CFBundleShortVersionString :: string
  b_CFBundleVersion :: string
  b_ID :: string
  b_Path :: string

record distBundleVersion =
  bv_Bundles :: "distBundle list"

record distPkgRef =
  pr_ID :: string
  pr_Version :: string
  pr_BundleVersion :: "distBundleVersion option"

record distOptions =
  opt_HostArchitectures :: string

record distOsVersion =
  osv_Min :: string

record distProduct =
  prod_ID :: string
  prod_Version :: string

record distributionXML =
  dist_Title :: string
  dist_Options :: "distOptions list"
  dist_OsVersions :: "distOsVersion list"
  dist_PkgRefs :: "distPkgRef list"
  dist_Product :: distProduct

text \<open>The variables the loop over the pkg-refs updates.\<close>

record distLoop =
  appBundles :: "AppBundle list"
  primaryBundleIdentifier :: string
  primaryBundlePath :: string
  primaryFound :: bool

text \<open>The inner scan \<^verbatim>\<open>for _, ab := range appBundles\<close> that sets \<^verbatim>\<open>duplicate\<close>.\<close>

primrec duplicate :: "AppBundle list \<Rightarrow> string \<Rightarrow> bool" where
  "duplicate [] i = False"
| "duplicate (ab # rest) i = (if ab_ID ab = i then True else duplicate rest i)"

definition mkAppBundle :: "distBundle \<Rightarrow> AppBundle" where
  "mkAppBundle bundle = \<lparr>ab_ID = b_ID bundle,
     ab_ShortVersion = b_CFBundleShortVersionString bundle,
     ab_AppLocationPath = b_Path bundle\<rparr>"

text \<open>One iteration of \<^verbatim>\<open>for _, bundle := range pkg.BundleVersion.Bundles\<close>.\<close>

definition bundleStep :: "string \<Rightarrow> distLoop \<Rightarrow> distBundle \<Rightarrow> distLoop" where
  "bundleStep pkgID st bundle =
     (if b_CFBundleShortVersionString bundle \<noteq> [] \<and> b_ID bundle \<noteq> [] then
        let st1 = (if \<not> duplicate (appBundles st) (b_ID bundle)
                   then st\<lparr>appBundles := appBundles st @ [mkAppBundle bundle]\<rparr>
                   else st)
        in if \<not> primaryFound st1 \<and> pkgID = b_ID bundle
           then st1\<lparr>primaryBundleIdentifier := pkgID,
                    primaryBundlePath := b_Path bundle,
                    primaryFound := True\<rparr>
           else st1
      else st)"

text \<open>One iteration of \<^verbatim>\<open>for _, pkg := range distXML.PkgRefs\<close>.\<close>

definition pkgStep :: "distLoop \<Rightarrow> distPkgRef \<Rightarrow> distLoop" where
  "pkgStep st pkg =
     (case pr_BundleVersion pkg of
        None \<Rightarrow> st
      | Some bv \<Rightarrow> foldl (bundleStep (pr_ID pkg)) st (bv_Bundles bv))"

definition collectBundles :: "distPkgRef list \<Rightarrow> distLoop" where
  "collectBundles pkgs =
     foldl pkgStep \<lparr>appBundles = [], primaryBundleIdentifier = [], primaryBundlePath = [],
                     primaryFound = False\<rparr> pkgs"

text \<open>
  The loop that builds \<^verbatim>\<open>pkgIDs\<close>: the state is the slice and the map \<^verbatim>\<open>pkgIDsMap\<close>, a Go
  \<^verbatim>\<open>map[string]bool\<close>, which reads \<open>False\<close> at a key it does not hold.
\<close>

definition pkgIDsStep ::
  "string list \<times> (string \<Rightarrow> bool) \<Rightarrow> AppBundle \<Rightarrow> string list \<times> (string \<Rightarrow> bool)" where
  "pkgIDsStep st ab =
     (if ab_ID ab \<noteq> [] \<and> \<not> snd st (ab_ID ab)
      then (fst st @ [ab_ID ab], (snd st)(ab_ID ab := True))
      else st)"

definition buildPkgIDs :: "AppBundle list \<Rightarrow> string list" where
  "buildPkgIDs bundles = fst (foldl pkgIDsStep ([], \<lambda>_. False) bundles)"

text \<open>The body of \<^verbatim>\<open>parseDistributionFile\<close> after the document has been unmarshalled.\<close>

definition distributionMetadata :: "distributionXML \<Rightarrow> PKGInstallerMetadata" where
  "distributionMetadata distXML =
     (let title = dist_Title distXML;
          hostArch = (case dist_Options distXML of [] \<Rightarrow> [] | opt # _ \<Rightarrow> opt_HostArchitectures opt);
          minOS = (case dist_OsVersions distXML of [] \<Rightarrow> [] | v # _ \<Rightarrow> osv_Min v);
          st = collectBundles (dist_PkgRefs distXML);
          st' = (case appBundles st of
                   [] \<Rightarrow> st
                 | ab # _ \<Rightarrow>
                     if \<not> primaryFound st
                     then st\<lparr>primaryBundleIdentifier := ab_ID ab,
                             primaryBundlePath := ab_AppLocationPath ab\<rparr>
                     else st);
          pkgIDs = buildPkgIDs (appBundles st');
          version = (case appBundles st' of
                       [] \<Rightarrow> prod_Version (dist_Product distXML)
                     | ab # _ \<Rightarrow> ab_ShortVersion ab)
      in zeroMetadata\<lparr>ApplicationTitle := title,
           Version := version,
           PrimaryBundleIdentifier := primaryBundleIdentifier st',
           PackageIDs := pkgIDs,
           MinimumOperatingSystemVersion := minOS,
           DisplayName := title,
           HostArchitectures := hostArch,
           PrimaryBundlePath := primaryBundlePath st',
           AppBundles := appBundles st'\<rparr>)"

subsection \<open>What the spec says of the Distribution strategy\<close>

text \<open>
  The bundles of the document in encounter order: every bundle of every pkg-ref that carries
  a bundle-version block.
\<close>

definition encounteredBundles :: "distributionXML \<Rightarrow> distBundle list" where
  "encounteredBundles distXML =
     concat (map (\<lambda>pkg. case pr_BundleVersion pkg of None \<Rightarrow> [] | Some bv \<Rightarrow> bv_Bundles bv)
                 (dist_PkgRefs distXML))"

text \<open>The bundles with both a non-empty id and a non-empty short version.\<close>

definition candidateBundles :: "distributionXML \<Rightarrow> distBundle list" where
  "candidateBundles distXML =
     filter (\<lambda>b. b_CFBundleShortVersionString b \<noteq> [] \<and> b_ID b \<noteq> []) (encounteredBundles distXML)"

text \<open>
  De-duplication where the first occurrence of a key wins: an element stays, and every later
  element with the same key is dropped, whatever its other fields.
\<close>

fun firstWins :: "('a \<Rightarrow> 'k) \<Rightarrow> 'a list \<Rightarrow> 'a list" where
  "firstWins key [] = []"
| "firstWins key (x # xs) = x # firstWins key (filter (\<lambda>y. key y \<noteq> key x) xs)"

lemma set_firstWins: "key ` set (firstWins key xs) = key ` set xs"
proof (induction key xs rule: firstWins.induct)
  case (1 key)
  then show ?case by simp
next
  case (2 key x xs)
  then show ?case by auto
qed

lemma firstWins_subset: "set (firstWins key xs) \<subseteq> set xs"
  by (induction key xs rule: firstWins.induct) auto

lemma distinct_firstWins: "distinct (map key (firstWins key xs))"
proof (induction key xs rule: firstWins.induct)
  case (1 key)
  then show ?case by simp
next
  case (2 key x xs)
  have "key x \<notin> key ` set (firstWins key (filter (\<lambda>y. key y \<noteq> key x) xs))"
    using firstWins_subset[of key "filter (\<lambda>y. key y \<noteq> key x) xs"] by auto
  with 2 show ?case by simp
qed

lemma map_firstWins: "map key (firstWins key xs) = firstWins id (map key xs)"
  by (induction key xs rule: firstWins.induct) (simp_all add: filter_map comp_def)

lemma duplicate_iff: "duplicate bundles i \<longleftrightarrow> i \<in> ab_ID ` set bundles"
  by (induction bundles) auto

text \<open>The slice \<^verbatim>\<open>appBundles\<close> alone, through one bundle.\<close>

lemma appBundles_bundleStep:
  "appBundles (bundleStep p st b) =
     (if b_CFBundleShortVersionString b \<noteq> [] \<and> b_ID b \<noteq> [] \<and> b_ID b \<notin> ab_ID ` set (appBundles st)
      then appBundles st @ [mkAppBundle b] else appBundles st)"
  by (simp add: bundleStep_def Let_def duplicate_iff)

lemma appBundles_foldl_bundleStep:
  "appBundles (foldl (bundleStep p) st bs) =
     appBundles st @
       firstWins ab_ID (filter (\<lambda>a. ab_ID a \<notin> ab_ID ` set (appBundles st))
         (map mkAppBundle (filter (\<lambda>b. b_CFBundleShortVersionString b \<noteq> [] \<and> b_ID b \<noteq> []) bs)))"
proof (induction bs arbitrary: st)
  case Nil
  then show ?case by simp
next
  case (Cons b bs)
  have id: "ab_ID (mkAppBundle b) = b_ID b" by (simp add: mkAppBundle_def)
  show ?case
    by (simp add: Cons.IH appBundles_bundleStep id conj_commute image_Un cong: filter_cong)
qed

lemma firstWins_append:
  "firstWins key (xs @ ys) =
     firstWins key xs @ firstWins key (filter (\<lambda>y. key y \<notin> key ` set xs) ys)"
proof (induction key xs arbitrary: ys rule: firstWins.induct)
  case (1 key)
  then show ?case by simp
next
  case (2 key x xs)
  have "filter (\<lambda>y. key y \<notin> key ` set (filter (\<lambda>y. key y \<noteq> key x) xs))
          (filter (\<lambda>y. key y \<noteq> key x) ys)
        = filter (\<lambda>y. key y \<notin> key ` set (x # xs)) ys"
    by (auto intro!: filter_cong)
  with 2[of "filter (\<lambda>y. key y \<noteq> key x) ys"] show ?case by simp
qed

definition isCandidate :: "distBundle \<Rightarrow> bool" where
  "isCandidate b \<longleftrightarrow> b_CFBundleShortVersionString b \<noteq> [] \<and> b_ID b \<noteq> []"

definition bundlesOf :: "distPkgRef \<Rightarrow> distBundle list" where
  "bundlesOf pkg = (case pr_BundleVersion pkg of None \<Rightarrow> [] | Some bv \<Rightarrow> bv_Bundles bv)"

lemma appBundles_pkgStep:
  "appBundles (pkgStep st pkg) =
     appBundles st @
       firstWins ab_ID (filter (\<lambda>a. ab_ID a \<notin> ab_ID ` set (appBundles st))
         (map mkAppBundle (filter isCandidate (bundlesOf pkg))))"
  by (simp add: pkgStep_def bundlesOf_def isCandidate_def[abs_def] appBundles_foldl_bundleStep
           split: option.split)

lemma appBundles_foldl_pkgStep:
  "appBundles (foldl pkgStep st pkgs) =
     appBundles st @
       firstWins ab_ID (filter (\<lambda>a. ab_ID a \<notin> ab_ID ` set (appBundles st))
         (map mkAppBundle (filter isCandidate (concat (map bundlesOf pkgs)))))"
proof (induction pkgs arbitrary: st)
  case Nil
  then show ?case by simp
next
  case (Cons pkg pkgs)
  let ?A = "filter (\<lambda>a. ab_ID a \<notin> ab_ID ` set (appBundles st))
              (map mkAppBundle (filter isCandidate (bundlesOf pkg)))"
  let ?B = "map mkAppBundle (filter isCandidate (concat (map bundlesOf pkgs)))"
  have keys: "ab_ID ` set (appBundles st @ firstWins ab_ID ?A)
                = ab_ID ` set (appBundles st) \<union> ab_ID ` set ?A"
    using set_firstWins[of ab_ID ?A] by (simp add: image_Un)
  have "filter (\<lambda>a. ab_ID a \<notin> ab_ID ` set (appBundles st @ firstWins ab_ID ?A)) ?B
        = filter (\<lambda>y. ab_ID y \<notin> ab_ID ` set ?A)
            (filter (\<lambda>a. ab_ID a \<notin> ab_ID ` set (appBundles st)) ?B)"
    unfolding keys by (auto intro!: filter_cong)
  then show ?case
    by (simp add: Cons.IH appBundles_pkgStep firstWins_append)
qed

lemma appBundles_collectBundles:
  "appBundles (collectBundles pkgs) =
     firstWins ab_ID (map mkAppBundle (filter isCandidate (concat (map bundlesOf pkgs))))"
  by (simp add: collectBundles_def appBundles_foldl_pkgStep)

lemma candidateBundles_eq:
  "candidateBundles d = filter isCandidate (concat (map bundlesOf (dist_PkgRefs d)))"
  by (simp add: candidateBundles_def encounteredBundles_def isCandidate_def[abs_def]
        bundlesOf_def[abs_def])

lemma AppBundles_distributionMetadata:
  "AppBundles (distributionMetadata d) = appBundles (collectBundles (dist_PkgRefs d))"
  by (simp add: distributionMetadata_def Let_def split: list.split)

lemma PackageIDs_distributionMetadata:
  "PackageIDs (distributionMetadata d) = buildPkgIDs (appBundles (collectBundles (dist_PkgRefs d)))"
  by (simp add: distributionMetadata_def Let_def split: list.split)

lemma Version_distributionMetadata:
  "Version (distributionMetadata d) =
     (case appBundles (collectBundles (dist_PkgRefs d)) of
        [] \<Rightarrow> prod_Version (dist_Product d)
      | ab # _ \<Rightarrow> ab_ShortVersion ab)"
  by (simp add: distributionMetadata_def Let_def split: list.split)

lemma foldl_pkgIDsStep:
  "distinct (map ab_ID xs) \<Longrightarrow> \<forall>a\<in>set xs. ab_ID a \<noteq> [] \<and> \<not> seen (ab_ID a) \<Longrightarrow>
     fst (foldl pkgIDsStep (ids, seen) xs) = ids @ map ab_ID xs"
proof (induction xs arbitrary: ids seen)
  case Nil
  then show ?case by simp
next
  case (Cons x xs)
  have step: "pkgIDsStep (ids, seen) x = (ids @ [ab_ID x], seen(ab_ID x := True))"
    using Cons.prems by (simp add: pkgIDsStep_def)
  have "ab_ID a \<noteq> ab_ID x" if "a \<in> set xs" for a
    using that Cons.prems(1) by (metis distinct.simps(2) imageI list.simps(9) set_map)
  then have "\<forall>a\<in>set xs. ab_ID a \<noteq> [] \<and> \<not> (seen(ab_ID x := True)) (ab_ID a)"
    using Cons.prems(2) by simp
  moreover have "distinct (map ab_ID xs)" using Cons.prems by simp
  ultimately have IH: "distinct (map ab_ID xs)"
      "\<forall>a\<in>set xs. ab_ID a \<noteq> [] \<and> \<not> (seen(ab_ID x := True)) (ab_ID a)"
    by simp_all
  have "fst (foldl pkgIDsStep (ids @ [ab_ID x], seen(ab_ID x := True)) xs)
      = (ids @ [ab_ID x]) @ map ab_ID xs"
    by (rule Cons.IH[OF IH])
  then show ?case by (simp add: step)
qed

lemma collected_nonempty:
  "a \<in> set (appBundles (collectBundles pkgs)) \<Longrightarrow> ab_ID a \<noteq> [] \<and> ab_ShortVersion a \<noteq> []"
proof -
  assume "a \<in> set (appBundles (collectBundles pkgs))"
  then have "a \<in> set (map mkAppBundle (filter isCandidate (concat (map bundlesOf pkgs))))"
    unfolding appBundles_collectBundles by (rule subsetD[OF firstWins_subset])
  then show ?thesis by (auto simp: isCandidate_def mkAppBundle_def)
qed

lemma buildPkgIDs_collected:
  "buildPkgIDs (appBundles (collectBundles pkgs)) = map ab_ID (appBundles (collectBundles pkgs))"
proof -
  have "distinct (map ab_ID (appBundles (collectBundles pkgs)))"
    by (simp add: appBundles_collectBundles distinct_firstWins)
  moreover have "\<forall>a\<in>set (appBundles (collectBundles pkgs)). ab_ID a \<noteq> [] \<and> \<not> (\<lambda>_. False) (ab_ID a)"
    using collected_nonempty by blast
  ultimately show ?thesis
    unfolding buildPkgIDs_def by (simp only: foldl_pkgIDsStep append_Nil)
qed

definition exampleDistribution :: distributionXML where
  "exampleDistribution =
     \<lparr>dist_Title = ''Example'',
      dist_Options = [],
      dist_OsVersions = [],
      dist_PkgRefs =
        [\<lparr>pr_ID = ''com.example.pkg'', pr_Version = ''9'',
          pr_BundleVersion = Some \<lparr>bv_Bundles =
            [\<lparr>b_CFBundleShortVersionString = ''1.0'', b_CFBundleVersion = ''100'',
              b_ID = ''com.example.app'', b_Path = ''Applications/A.app''\<rparr>,
             \<lparr>b_CFBundleShortVersionString = '''', b_CFBundleVersion = ''1'',
              b_ID = ''com.example.noversion'', b_Path = ''N.app''\<rparr>]\<rparr>\<rparr>,
         \<lparr>pr_ID = ''com.example.other'', pr_Version = ''9'', pr_BundleVersion = None\<rparr>,
         \<lparr>pr_ID = ''com.example.pkg2'', pr_Version = ''9'',
          pr_BundleVersion = Some \<lparr>bv_Bundles =
            [\<lparr>b_CFBundleShortVersionString = ''2.0'', b_CFBundleVersion = ''200'',
              b_ID = ''com.example.app'', b_Path = ''Applications/B.app''\<rparr>,
             \<lparr>b_CFBundleShortVersionString = ''3.0'', b_CFBundleVersion = ''300'',
              b_ID = ''com.example.helper'', b_Path = ''Library/H.app''\<rparr>]\<rparr>\<rparr>],
      dist_Product = \<lparr>prod_ID = ''com.example'', prod_Version = ''7.7''\<rparr>\<rparr>"

lemma example_eval:
  "AppBundles (distributionMetadata exampleDistribution) =
     [\<lparr>ab_ID = ''com.example.app'', ab_ShortVersion = ''1.0'', ab_AppLocationPath = ''Applications/A.app''\<rparr>,
      \<lparr>ab_ID = ''com.example.helper'', ab_ShortVersion = ''3.0'', ab_AppLocationPath = ''Library/H.app''\<rparr>]"
  by (simp add: distributionMetadata_def exampleDistribution_def collectBundles_def pkgStep_def
        bundleStep_def mkAppBundle_def Let_def zeroMetadata_def)

text \<open>
  Claim C3.  Among the bundles with a non-empty id and a non-empty short version, the
  AppBundles are de-duplicated by id and the first occurrence wins, whatever the version or
  path of a later bundle with the same id; the package ids are the ids in first-seen order.
\<close>

theorem distribution_first_occurrence_wins:
  "AppBundles (distributionMetadata d) = firstWins ab_ID (map mkAppBundle (candidateBundles d)) \<and>
   PackageIDs (distributionMetadata d) = firstWins id (map b_ID (candidateBundles d)) \<and>
   distinct (PackageIDs (distributionMetadata d))"
proof -
  have ab: "AppBundles (distributionMetadata d) = firstWins ab_ID (map mkAppBundle (candidateBundles d))"
    by (simp add: AppBundles_distributionMetadata appBundles_collectBundles candidateBundles_eq)
  have "PackageIDs (distributionMetadata d) = map ab_ID (appBundles (collectBundles (dist_PkgRefs d)))"
    by (simp only: PackageIDs_distributionMetadata buildPkgIDs_collected)
  then have ids: "PackageIDs (distributionMetadata d) = map ab_ID (firstWins ab_ID (map mkAppBundle (candidateBundles d)))"
    by (simp add: appBundles_collectBundles candidateBundles_eq)
  have "ab_ID \<circ> mkAppBundle = b_ID"
    by (rule ext) (simp add: mkAppBundle_def)
  with ids have ids': "PackageIDs (distributionMetadata d) = firstWins id (map b_ID (candidateBundles d))"
    by (simp add: map_firstWins)
  have "distinct (PackageIDs (distributionMetadata d))"
    unfolding ids by (rule distinct_firstWins)
  with ab ids' show ?thesis by simp
qed

text \<open>
  Claim C8.  The overall version is the short version of the first AppBundle in encounter
  order when there is one, and the product version of the document otherwise.
\<close>

theorem distribution_version_choice:
  "Version (distributionMetadata d) =
     (case AppBundles (distributionMetadata d) of
        [] \<Rightarrow> prod_Version (dist_Product d)
      | ab # _ \<Rightarrow> ab_ShortVersion ab) \<and>
   Version (distributionMetadata d) =
     (case candidateBundles d of
        [] \<Rightarrow> prod_Version (dist_Product d)
      | b # _ \<Rightarrow> b_CFBundleShortVersionString b)"
proof -
  have "appBundles (collectBundles (dist_PkgRefs d)) =
          firstWins ab_ID (map mkAppBundle (candidateBundles d))"
    by (simp add: appBundles_collectBundles candidateBundles_eq)
  then show ?thesis
    by (cases "candidateBundles d")
       (simp_all add: Version_distributionMetadata AppBundles_distributionMetadata mkAppBundle_def)
qed

text \<open>
  Claim C10.  The package ids and the AppBundles have the same length, the i-th package id is
  the id of the i-th AppBundle, and every AppBundle has a non-empty id and short version.
\<close>

theorem distribution_ids_index_bundles:
  "length (PackageIDs (distributionMetadata d)) = length (AppBundles (distributionMetadata d)) \<and>
   (\<forall>i < length (AppBundles (distributionMetadata d)).
      PackageIDs (distributionMetadata d) ! i = ab_ID (AppBundles (distributionMetadata d) ! i)) \<and>
   (\<forall>ab \<in> set (AppBundles (distributionMetadata d)). ab_ID ab \<noteq> [] \<and> ab_ShortVersion ab \<noteq> [])"
proof -
  have ids: "PackageIDs (distributionMetadata d) = map ab_ID (AppBundles (distributionMetadata d))"
    by (simp only: PackageIDs_distributionMetadata AppBundles_distributionMetadata
          buildPkgIDs_collected)
  have "\<forall>ab \<in> set (AppBundles (distributionMetadata d)). ab_ID ab \<noteq> [] \<and> ab_ShortVersion ab \<noteq> []"
    unfolding AppBundles_distributionMetadata using collected_nonempty by blast
  with ids show ?thesis by simp
qed

theorem distribution_ids_index_bundles_witness:
  "length (AppBundles (distributionMetadata exampleDistribution)) = 2 \<and>
   length (PackageIDs (distributionMetadata exampleDistribution)) = 2 \<and>
   PackageIDs (distributionMetadata exampleDistribution) ! 1 = ''com.example.helper'' \<and>
   ab_ShortVersion (AppBundles (distributionMetadata exampleDistribution) ! 1) \<noteq> []"
proof -
  let ?m = "distributionMetadata exampleDistribution"
  have ev: "AppBundles ?m =
     [\<lparr>ab_ID = ''com.example.app'', ab_ShortVersion = ''1.0'',
        ab_AppLocationPath = ''Applications/A.app''\<rparr>,
      \<lparr>ab_ID = ''com.example.helper'', ab_ShortVersion = ''3.0'',
        ab_AppLocationPath = ''Library/H.app''\<rparr>]"
    by (simp add: distributionMetadata_def exampleDistribution_def collectBundles_def pkgStep_def
          bundleStep_def mkAppBundle_def Let_def zeroMetadata_def)
  have len: "length (AppBundles ?m) = 2" and lt: "1 < length (AppBundles ?m)"
    and mem: "AppBundles ?m ! 1 \<in> set (AppBundles ?m)"
    by (simp_all add: ev)
  note main = distribution_ids_index_bundles[of exampleDistribution]
  from main len have "length (PackageIDs ?m) = 2" by simp
  moreover from main lt have "PackageIDs ?m ! 1 = ab_ID (AppBundles ?m ! 1)" by blast
  then have "PackageIDs ?m ! 1 = ''com.example.helper''" by (simp add: ev)
  moreover from main mem have "ab_ShortVersion (AppBundles ?m ! 1) \<noteq> []" by blast
  ultimately show ?thesis using len by simp
qed

section \<open>Strings\<close>

text \<open>
  The functions of Go's \<^verbatim>\<open>strings\<close> and \<^verbatim>\<open>path/filepath\<close> packages that the source calls, on
  byte strings (a Go string is a sequence of bytes, read as UTF-8 where code points matter).
  Paths are Unix paths (separator \<open>/\<close>).
\<close>

definition HasPrefix :: "string \<Rightarrow> string \<Rightarrow> bool" where
  "HasPrefix s p \<longleftrightarrow> take (length p) s = p"

definition HasSuffix :: "string \<Rightarrow> string \<Rightarrow> bool" where
  "HasSuffix s x \<longleftrightarrow> length x \<le> length s \<and> drop (length s - length x) s = x"

definition TrimPrefix :: "string \<Rightarrow> string \<Rightarrow> string" where
  "TrimPrefix s p = (if HasPrefix s p then drop (length p) s else s)"

primrec Contains :: "string \<Rightarrow> string \<Rightarrow> bool" where
  "Contains [] sub = (sub = [])"
| "Contains (c # cs) sub = (HasPrefix (c # cs) sub \<or> Contains cs sub)"

text \<open>
  \<^verbatim>\<open>strings.TrimSpace\<close> removes the leading and the trailing Unicode white space of a string.
  The white space of \<^verbatim>\<open>unicode.IsSpace\<close> is tab, line feed, vertical tab, form feed, carriage
  return, space, U+0085, U+00A0, U+1680, U+2000 to U+200A, U+2028, U+2029, U+202F, U+205F and
  U+3000; these are their UTF-8 encodings.  A byte that starts no valid encoding of one of
  them is no white space (Go decodes it as another code point or as the replacement
  character), so the leading white space is the longest prefix made of these encodings, and
  the trailing white space the longest suffix.
\<close>

definition spaceEncodings :: "string list" where
  "spaceEncodings =
     [[CHR 0x09], [CHR 0x0A], [CHR 0x0B], [CHR 0x0C], [CHR 0x0D], [CHR 0x20],
      [CHR 0xC2, CHR 0x85], [CHR 0xC2, CHR 0xA0],
      [CHR 0xE1, CHR 0x9A, CHR 0x80],
      [CHR 0xE2, CHR 0x80, CHR 0x80], [CHR 0xE2, CHR 0x80, CHR 0x81],
      [CHR 0xE2, CHR 0x80, CHR 0x82], [CHR 0xE2, CHR 0x80, CHR 0x83],
      [CHR 0xE2, CHR 0x80, CHR 0x84], [CHR 0xE2, CHR 0x80, CHR 0x85],
      [CHR 0xE2, CHR 0x80, CHR 0x86], [CHR 0xE2, CHR 0x80, CHR 0x87],
      [CHR 0xE2, CHR 0x80, CHR 0x88], [CHR 0xE2, CHR 0x80, CHR 0x89],
      [CHR 0xE2, CHR 0x80, CHR 0x8A],
      [CHR 0xE2, CHR 0x80, CHR 0xA8], [CHR 0xE2, CHR 0x80, CHR 0xA9],
      [CHR 0xE2, CHR 0x80, CHR 0xAF],
      [CHR 0xE2, CHR 0x81, CHR 0x9F],
      [CHR 0xE3, CHR 0x80, CHR 0x80]]"

text \<open>The length of the encoding, among \<open>encs\<close>, that the string starts with; 0 when none.\<close>

definition leadingLen :: "string list \<Rightarrow> string \<Rightarrow> nat" where
  "leadingLen encs s = (case find (HasPrefix s) encs of None \<Rightarrow> 0 | Some w \<Rightarrow> length w)"

lemma leadingLen_le: "leadingLen encs s \<le> length s"
proof (cases "find (HasPrefix s) encs")
  case None
  then show ?thesis by (simp add: leadingLen_def)
next
  case (Some w)
  then have "HasPrefix s w" by (auto simp: find_Some_iff)
  then have "length w \<le> length s"
    unfolding HasPrefix_def by (metis length_take min.cobounded1)
  with Some show ?thesis by (simp add: leadingLen_def)
qed

function trimLeading :: "string list \<Rightarrow> string \<Rightarrow> string" where
  "trimLeading encs s =
     (if leadingLen encs s = 0 then s else trimLeading encs (drop (leadingLen encs s) s))"
  by pat_completeness auto
termination
proof (relation "measure (\<lambda>(encs, s). length s)")
  show "wf (measure (\<lambda>(encs, s). length s))" by simp
next
  fix encs :: "string list" and s :: string
  assume "leadingLen encs s \<noteq> 0"
  moreover have "leadingLen encs s \<le> length s" by (rule leadingLen_le)
  ultimately show "((encs, drop (leadingLen encs s) s), (encs, s)) \<in> measure (\<lambda>(encs, s). length s)"
    by simp
qed

declare trimLeading.simps [simp del]

definition TrimSpace :: "string \<Rightarrow> string" where
  "TrimSpace s =
     rev (trimLeading (map rev spaceEncodings) (rev (trimLeading spaceEncodings s)))"

text \<open>\<^verbatim>\<open>strings.Split(s, sep)\<close> for a separator of one byte: never the empty list.\<close>

primrec Split :: "string \<Rightarrow> char \<Rightarrow> string list" where
  "Split [] sep = [[]]"
| "Split (c # cs) sep =
     (if c = sep then [] # Split cs sep
      else (case Split cs sep of [] \<Rightarrow> [[c]] | part # parts \<Rightarrow> (c # part) # parts))"

primrec joinWith :: "char \<Rightarrow> string list \<Rightarrow> string" where
  "joinWith sep [] = []"
| "joinWith sep (x # xs) = (if xs = [] then x else x @ sep # joinWith sep xs)"

text \<open>
  \<^verbatim>\<open>filepath.Clean\<close>: empty and \<open>.\<close> elements go, a \<open>..\<close> element removes the element before
  it when there is one to remove, is kept at the start of a relative path and is dropped at
  the root.  The state is the elements written and how many of them \<open>..\<close> may remove.
\<close>

definition cleanStep :: "bool \<Rightarrow> string list \<times> nat \<Rightarrow> string \<Rightarrow> string list \<times> nat" where
  "cleanStep rooted st e =
     (if e = [] \<or> e = ''.'' then st
      else if e = ''..'' then
        (if 0 < snd st then (butlast (fst st), snd st - 1)
         else if \<not> rooted then (fst st @ [''..''], 0)
         else st)
      else (fst st @ [e], Suc (snd st)))"

definition Clean :: "string \<Rightarrow> string" where
  "Clean path =
     (if path = [] then ''.''
      else let rooted = (hd path = CHR ''/'');
               out = fst (foldl (cleanStep rooted) ([], 0) (Split path CHR ''/''));
               s = (if rooted then ''/'' else []) @ joinWith CHR ''/'' out
           in if s = [] then ''.'' else s)"

text \<open>\<^verbatim>\<open>filepath.Join\<close> of two elements.\<close>

definition Join :: "string \<Rightarrow> string \<Rightarrow> string" where
  "Join a b =
     (if a \<noteq> [] then Clean (a @ CHR ''/'' # b)
      else if b \<noteq> [] then Clean b
      else [])"

text \<open>\<^verbatim>\<open>filepath.Split\<close>: the directory up to and with the last separator, and the file after it.\<close>

definition filepathSplit :: "string \<Rightarrow> string \<times> string" where
  "filepathSplit path =
     (rev (dropWhile (\<lambda>c. c \<noteq> CHR ''/'') (rev path)),
      rev (takeWhile (\<lambda>c. c \<noteq> CHR ''/'') (rev path)))"

section \<open>The PackageInfo strategy\<close>

record BundleInfo =
  bi_Path :: string
  bi_ID :: string
  bi_CFBundleShortVersionString :: string
  bi_CFBundleDisplayName :: string
  bi_CFBundleIdentifier :: string
  bi_CFBundleName :: string
  bi_LSMinimumSystemVersion :: string

record PackageInfo =
  pi_Version :: string
  pi_InstallLocation :: string
  pi_Identifier :: string
  pi_Bundles :: "BundleInfo list"

definition sanitizeBundleString :: "string \<Rightarrow> string" where
  "sanitizeBundleString s =
     filter (\<lambda>c. c \<noteq> CHR 0x0A \<and> c \<noteq> CHR 0x0D \<and> c \<noteq> CHR 0x09) (TrimSpace s)"

definition isValidAppFilePath :: "string \<Rightarrow> string \<times> bool" where
  "isValidAppFilePath input =
     (let (dir, file) = filepathSplit input
      in if dir = [] \<and> file = input then (file, True)
         else if HasSuffix file ''.app'' then
           (if dir = ''Applications/'' then (file, True) else ([], False))
         else ([], False))"

text \<open>
  The named results of \<^verbatim>\<open>getPackageInfo\<close> and its map \<^verbatim>\<open>packageIDSet\<close>.  The map is kept as
  the list of its keys in the order they were first stored; Go ranges over a map in an order
  it does not specify, so the range is a parameter \<open>rangeOrder\<close>, some rearrangement of the keys.
\<close>

record pkgInfoVars =
  v_name :: string
  v_identifier :: string
  v_version :: string
  v_packageIDs :: "string list"
  v_displayName :: string
  v_bundleName :: string
  v_minOSVersion :: string
  v_packageIDSet :: "string list"

definition installPathOf :: "PackageInfo \<Rightarrow> BundleInfo \<Rightarrow> string" where
  "installPathOf p bundle =
     (let installPath = bi_Path bundle;
          installPath = (if pi_InstallLocation p \<noteq> [] then Join (pi_InstallLocation p) installPath
                         else installPath);
          installPath = TrimPrefix installPath ''/'';
          installPath = TrimPrefix installPath ''./''
      in installPath)"

definition setInsert :: "string list \<Rightarrow> string \<Rightarrow> string list" where
  "setInsert keys k = (if k \<in> set keys then keys else keys @ [k])"

text \<open>One iteration of \<^verbatim>\<open>for _, bundle := range p.Bundles\<close>.\<close>

definition bundleInfoStep :: "PackageInfo \<Rightarrow> pkgInfoVars \<Rightarrow> BundleInfo \<Rightarrow> pkgInfoVars" where
  "bundleInfoStep p vs bundle =
     (let installPath = installPathOf p bundle;
          (base, isValid) = isValidAppFilePath installPath;
          vs1 = (if isValid then
                   vs\<lparr>v_identifier := sanitizeBundleString (bi_ID bundle),
                      v_name := base,
                      v_version := sanitizeBundleString (bi_CFBundleShortVersionString bundle),
                      v_displayName := sanitizeBundleString (bi_CFBundleDisplayName bundle),
                      v_bundleName := sanitizeBundleString (bi_CFBundleName bundle),
                      v_minOSVersion := sanitizeBundleString (bi_LSMinimumSystemVersion bundle)\<rparr>
                 else vs);
          bundleID = sanitizeBundleString (bi_ID bundle)
      in if bundleID \<noteq> [] then vs1\<lparr>v_packageIDSet := setInsert (v_packageIDSet vs1) bundleID\<rparr>
         else vs1)"

definition zeroVars :: pkgInfoVars where
  "zeroVars = \<lparr>v_name = [], v_identifier = [], v_version = [], v_packageIDs = [],
     v_displayName = [], v_bundleName = [], v_minOSVersion = [], v_packageIDSet = []\<rparr>"

definition bundlesLoop :: "PackageInfo \<Rightarrow> pkgInfoVars" where
  "bundlesLoop p = foldl (bundleInfoStep p) zeroVars (pi_Bundles p)"

text \<open>The statements after the loop, one definition each, in the order of the source.\<close>

definition convertSetToSlice :: "(string list \<Rightarrow> string list) \<Rightarrow> pkgInfoVars \<Rightarrow> pkgInfoVars" where
  "convertSetToSlice rangeOrder vs = vs\<lparr>v_packageIDs := v_packageIDs vs @ rangeOrder (v_packageIDSet vs)\<rparr>"

definition versionFallback :: "PackageInfo \<Rightarrow> pkgInfoVars \<Rightarrow> pkgInfoVars" where
  "versionFallback p vs =
     (if v_version vs = [] then vs\<lparr>v_version := sanitizeBundleString (pi_Version p)\<rparr> else vs)"

definition identifierFallback :: "PackageInfo \<Rightarrow> pkgInfoVars \<Rightarrow> pkgInfoVars" where
  "identifierFallback p vs =
     (if v_identifier vs = [] then vs\<lparr>v_identifier := sanitizeBundleString (pi_Identifier p)\<rparr>
      else vs)"

definition nameFromIdentifier :: "pkgInfoVars \<Rightarrow> pkgInfoVars" where
  "nameFromIdentifier vs =
     (if v_name vs = [] then
        (let idParts = Split (v_identifier vs) CHR ''.''
         in if 0 < length idParts then vs\<lparr>v_name := idParts ! (length idParts - 1)\<rparr> else vs)
      else vs)"

definition identifierAsPackageID :: "pkgInfoVars \<Rightarrow> pkgInfoVars" where
  "identifierAsPackageID vs =
     (if length (v_packageIDs vs) = 0 \<and> v_identifier vs \<noteq> []
      then vs\<lparr>v_packageIDs := v_packageIDs vs @ [v_identifier vs]\<rparr> else vs)"

definition getPackageInfo :: "(string list \<Rightarrow> string list) \<Rightarrow> PackageInfo \<Rightarrow> pkgInfoVars" where
  "getPackageInfo rangeOrder p =
     identifierAsPackageID (nameFromIdentifier (identifierFallback p (versionFallback p
       (convertSetToSlice rangeOrder (bundlesLoop p)))))"

subsection \<open>What the spec says of the PackageInfo strategy\<close>

text \<open>A bundle qualifies when its effective path passes \<open>isValidAppFilePath\<close>.\<close>

definition qualifies :: "PackageInfo \<Rightarrow> BundleInfo \<Rightarrow> bool" where
  "qualifies p bundle = snd (isValidAppFilePath (installPathOf p bundle))"

definition lastQualifying :: "PackageInfo \<Rightarrow> BundleInfo option" where
  "lastQualifying p =
     (case rev (filter (qualifies p) (pi_Bundles p)) of [] \<Rightarrow> None | b # _ \<Rightarrow> Some b)"

text \<open>The non-empty sanitized bundle ids of the document.\<close>

definition bundleIDs :: "PackageInfo \<Rightarrow> string set" where
  "bundleIDs p = (\<lambda>b. sanitizeBundleString (bi_ID b)) ` set (pi_Bundles p) - {[]}"

text \<open>A range order rearranges the keys of a map: it neither drops, adds nor repeats one.\<close>

definition rearranges :: "(string list \<Rightarrow> string list) \<Rightarrow> bool" where
  "rearranges rangeOrder \<longleftrightarrow>
     (\<forall>ks. distinct ks \<longrightarrow> distinct (rangeOrder ks) \<and> set (rangeOrder ks) = set ks)"

text \<open>The six variables a qualifying bundle assigns.\<close>

definition assignedVars :: "pkgInfoVars \<Rightarrow> string \<times> string \<times> string \<times> string \<times> string \<times> string" where
  "assignedVars vs =
     (v_name vs, v_identifier vs, v_version vs, v_displayName vs, v_bundleName vs, v_minOSVersion vs)"

definition bundleVars :: "PackageInfo \<Rightarrow> BundleInfo \<Rightarrow> string \<times> string \<times> string \<times> string \<times> string \<times> string" where
  "bundleVars p b =
     (fst (isValidAppFilePath (installPathOf p b)),
      sanitizeBundleString (bi_ID b),
      sanitizeBundleString (bi_CFBundleShortVersionString b),
      sanitizeBundleString (bi_CFBundleDisplayName b),
      sanitizeBundleString (bi_CFBundleName b),
      sanitizeBundleString (bi_LSMinimumSystemVersion b))"

lemma assignedVars_bundleInfoStep:
  "assignedVars (bundleInfoStep p vs b) = (if qualifies p b then bundleVars p b else assignedVars vs)"
  by (simp add: bundleInfoStep_def assignedVars_def bundleVars_def qualifies_def Let_def
        split: prod.split)

lemma assignedVars_foldl:
  "assignedVars (foldl (bundleInfoStep p) vs bs) =
     (case rev (filter (qualifies p) bs) of [] \<Rightarrow> assignedVars vs | b # _ \<Rightarrow> bundleVars p b)"
proof (induction bs rule: rev_induct)
  case Nil
  then show ?case by simp
next
  case (snoc b bs)
  then show ?case by (simp add: assignedVars_bundleInfoStep)
qed

lemma assignedVars_bundlesLoop:
  "assignedVars (bundlesLoop p) =
     (case lastQualifying p of None \<Rightarrow> ([], [], [], [], [], []) | Some b \<Rightarrow> bundleVars p b)"
  by (simp add: bundlesLoop_def assignedVars_foldl lastQualifying_def split: list.split)
     (simp add: assignedVars_def zeroVars_def)

lemma packageIDSet_bundleInfoStep:
  "v_packageIDSet (bundleInfoStep p vs b) =
     (if sanitizeBundleString (bi_ID b) \<noteq> []
      then setInsert (v_packageIDSet vs) (sanitizeBundleString (bi_ID b))
      else v_packageIDSet vs)"
  by (simp add: bundleInfoStep_def Let_def split: prod.split)

lemma packageIDSet_foldl:
  "set (v_packageIDSet (foldl (bundleInfoStep p) vs bs)) =
     set (v_packageIDSet vs) \<union> ((\<lambda>b. sanitizeBundleString (bi_ID b)) ` set bs - {[]}) \<and>
   (distinct (v_packageIDSet vs) \<longrightarrow> distinct (v_packageIDSet (foldl (bundleInfoStep p) vs bs)))"
proof (induction bs rule: rev_induct)
  case Nil
  then show ?case by simp
next
  case (snoc b bs)
  then show ?case by (auto simp: packageIDSet_bundleInfoStep setInsert_def)
qed

lemma packageIDSet_bundlesLoop:
  "set (v_packageIDSet (bundlesLoop p)) = bundleIDs p"
  "distinct (v_packageIDSet (bundlesLoop p))"
  using packageIDSet_foldl[of p zeroVars "pi_Bundles p"]
  by (simp_all add: bundlesLoop_def bundleIDs_def zeroVars_def)

lemma Split_nonempty: "Split s sep \<noteq> []"
  by (induction s) (auto split: list.split)

lemma convertSetToSlice_fields:
  "v_name (convertSetToSlice ro vs) = v_name vs"
  "v_identifier (convertSetToSlice ro vs) = v_identifier vs"
  "v_version (convertSetToSlice ro vs) = v_version vs"
  "v_displayName (convertSetToSlice ro vs) = v_displayName vs"
  "v_bundleName (convertSetToSlice ro vs) = v_bundleName vs"
  "v_minOSVersion (convertSetToSlice ro vs) = v_minOSVersion vs"
  "v_packageIDs (convertSetToSlice ro vs) = v_packageIDs vs @ ro (v_packageIDSet vs)"
  by (simp_all add: convertSetToSlice_def)

lemma versionFallback_fields:
  "v_name (versionFallback p vs) = v_name vs"
  "v_identifier (versionFallback p vs) = v_identifier vs"
  "v_version (versionFallback p vs) =
     (if v_version vs = [] then sanitizeBundleString (pi_Version p) else v_version vs)"
  "v_displayName (versionFallback p vs) = v_displayName vs"
  "v_bundleName (versionFallback p vs) = v_bundleName vs"
  "v_minOSVersion (versionFallback p vs) = v_minOSVersion vs"
  "v_packageIDs (versionFallback p vs) = v_packageIDs vs"
  by (simp_all add: versionFallback_def)

lemma identifierFallback_fields:
  "v_name (identifierFallback p vs) = v_name vs"
  "v_identifier (identifierFallback p vs) =
     (if v_identifier vs = [] then sanitizeBundleString (pi_Identifier p) else v_identifier vs)"
  "v_version (identifierFallback p vs) = v_version vs"
  "v_displayName (identifierFallback p vs) = v_displayName vs"
  "v_bundleName (identifierFallback p vs) = v_bundleName vs"
  "v_minOSVersion (identifierFallback p vs) = v_minOSVersion vs"
  "v_packageIDs (identifierFallback p vs) = v_packageIDs vs"
  by (simp_all add: identifierFallback_def)

lemma nameFromIdentifier_fields:
  "v_name (nameFromIdentifier vs) =
     (if v_name vs = [] then last (Split (v_identifier vs) CHR ''.'') else v_name vs)"
  "v_identifier (nameFromIdentifier vs) = v_identifier vs"
  "v_version (nameFromIdentifier vs) = v_version vs"
  "v_displayName (nameFromIdentifier vs) = v_displayName vs"
  "v_bundleName (nameFromIdentifier vs) = v_bundleName vs"
  "v_minOSVersion (nameFromIdentifier vs) = v_minOSVersion vs"
  "v_packageIDs (nameFromIdentifier vs) = v_packageIDs vs"
  by (simp_all add: nameFromIdentifier_def Let_def Split_nonempty last_conv_nth)

lemma identifierAsPackageID_fields:
  "v_name (identifierAsPackageID vs) = v_name vs"
  "v_identifier (identifierAsPackageID vs) = v_identifier vs"
  "v_version (identifierAsPackageID vs) = v_version vs"
  "v_displayName (identifierAsPackageID vs) = v_displayName vs"
  "v_bundleName (identifierAsPackageID vs) = v_bundleName vs"
  "v_minOSVersion (identifierAsPackageID vs) = v_minOSVersion vs"
  "v_packageIDs (identifierAsPackageID vs) =
     (if v_packageIDs vs = [] \<and> v_identifier vs \<noteq> [] then [v_identifier vs] else v_packageIDs vs)"
  by (simp_all add: identifierAsPackageID_def)

lemmas getPackageInfo_steps =
  convertSetToSlice_fields versionFallback_fields identifierFallback_fields
  nameFromIdentifier_fields identifierAsPackageID_fields

lemma packageIDs_bundlesLoop: "v_packageIDs (bundlesLoop p) = []"
proof -
  have "v_packageIDs (foldl (bundleInfoStep p) vs bs) = v_packageIDs vs" for vs bs
    by (induction bs rule: rev_induct)
       (simp_all add: bundleInfoStep_def Let_def split: prod.split)
  then show ?thesis by (simp add: bundlesLoop_def zeroVars_def)
qed

lemma getPackageInfo_version:
  "v_version (getPackageInfo rangeOrder p) =
     (if v_version (bundlesLoop p) = [] then sanitizeBundleString (pi_Version p)
      else v_version (bundlesLoop p))"
  by (simp add: getPackageInfo_def getPackageInfo_steps)

lemma getPackageInfo_identifier:
  "v_identifier (getPackageInfo rangeOrder p) =
     (if v_identifier (bundlesLoop p) = [] then sanitizeBundleString (pi_Identifier p)
      else v_identifier (bundlesLoop p))"
  by (simp add: getPackageInfo_def getPackageInfo_steps)

lemma getPackageInfo_name:
  "v_name (getPackageInfo rangeOrder p) =
     (if v_name (bundlesLoop p) = []
      then last (Split (v_identifier (getPackageInfo rangeOrder p)) CHR ''.'')
      else v_name (bundlesLoop p))"
  by (simp add: getPackageInfo_def getPackageInfo_steps)

lemma getPackageInfo_others:
  "v_displayName (getPackageInfo rangeOrder p) = v_displayName (bundlesLoop p)"
  "v_bundleName (getPackageInfo rangeOrder p) = v_bundleName (bundlesLoop p)"
  "v_minOSVersion (getPackageInfo rangeOrder p) = v_minOSVersion (bundlesLoop p)"
  by (simp_all add: getPackageInfo_def getPackageInfo_steps)

lemma getPackageInfo_packageIDs:
  "v_packageIDs (getPackageInfo rangeOrder p) =
     (if rangeOrder (v_packageIDSet (bundlesLoop p)) = [] \<and> v_identifier (getPackageInfo rangeOrder p) \<noteq> []
      then [v_identifier (getPackageInfo rangeOrder p)]
      else rangeOrder (v_packageIDSet (bundlesLoop p)))"
  by (simp add: getPackageInfo_def getPackageInfo_steps packageIDs_bundlesLoop)

lemma loop_fields:
  "lastQualifying p = Some b \<Longrightarrow>
     v_name (bundlesLoop p) = fst (isValidAppFilePath (installPathOf p b)) \<and>
     v_identifier (bundlesLoop p) = sanitizeBundleString (bi_ID b) \<and>
     v_version (bundlesLoop p) = sanitizeBundleString (bi_CFBundleShortVersionString b) \<and>
     v_displayName (bundlesLoop p) = sanitizeBundleString (bi_CFBundleDisplayName b) \<and>
     v_bundleName (bundlesLoop p) = sanitizeBundleString (bi_CFBundleName b) \<and>
     v_minOSVersion (bundlesLoop p) = sanitizeBundleString (bi_LSMinimumSystemVersion b)"
  using assignedVars_bundlesLoop[of p] by (simp add: assignedVars_def bundleVars_def)

lemma loop_fields_none:
  "lastQualifying p = None \<Longrightarrow>
     v_name (bundlesLoop p) = [] \<and> v_identifier (bundlesLoop p) = [] \<and> v_version (bundlesLoop p) = []"
  using assignedVars_bundlesLoop[of p] by (simp add: assignedVars_def)

text \<open>
  Claim C9.  The fallback to the top-level version, and likewise to the top-level identifier,
  applies whenever the variable is empty after the loop: when no bundle qualified, and also
  when the last qualifying bundle's short version (or id) sanitizes to the empty string.
\<close>

theorem packageinfo_fallback_on_empty:
  "v_version (getPackageInfo rangeOrder p) =
     (case lastQualifying p of
        None \<Rightarrow> sanitizeBundleString (pi_Version p)
      | Some b \<Rightarrow>
          if sanitizeBundleString (bi_CFBundleShortVersionString b) = []
          then sanitizeBundleString (pi_Version p)
          else sanitizeBundleString (bi_CFBundleShortVersionString b)) \<and>
   v_identifier (getPackageInfo rangeOrder p) =
     (case lastQualifying p of
        None \<Rightarrow> sanitizeBundleString (pi_Identifier p)
      | Some b \<Rightarrow>
          if sanitizeBundleString (bi_ID b) = []
          then sanitizeBundleString (pi_Identifier p)
          else sanitizeBundleString (bi_ID b))"
proof (cases "lastQualifying p")
  case None
  then show ?thesis
    using loop_fields_none[of p] by (simp add: getPackageInfo_version getPackageInfo_identifier)
next
  case (Some b)
  then show ?thesis
    using loop_fields[of p b] by (simp add: getPackageInfo_version getPackageInfo_identifier)
qed

definition bundleOne :: BundleInfo where
  "bundleOne =
     \<lparr>bi_Path = ''One.app'', bi_ID = ''com.example.one'',
      bi_CFBundleShortVersionString = ''1.0'', bi_CFBundleDisplayName = ''One'',
      bi_CFBundleIdentifier = ''com.example.one'', bi_CFBundleName = ''one'',
      bi_LSMinimumSystemVersion = ''10.13''\<rparr>"

definition bundleTwo :: BundleInfo where
  "bundleTwo =
     \<lparr>bi_Path = ''./Two.app'', bi_ID = '' com.example.two '',
      bi_CFBundleShortVersionString = ''2.0'', bi_CFBundleDisplayName = ''Two'',
      bi_CFBundleIdentifier = ''com.example.two'', bi_CFBundleName = ''two'',
      bi_LSMinimumSystemVersion = ''11.0''\<rparr>"

definition bundleHelper :: BundleInfo where
  "bundleHelper =
     \<lparr>bi_Path = ''Two.app/Contents/Helper.app'', bi_ID = ''com.example.one'',
      bi_CFBundleShortVersionString = ''3.0'', bi_CFBundleDisplayName = ''Helper'',
      bi_CFBundleIdentifier = ''com.example.helper'', bi_CFBundleName = ''helper'',
      bi_LSMinimumSystemVersion = ''12.0''\<rparr>"

definition examplePackageInfo :: PackageInfo where
  "examplePackageInfo =
     \<lparr>pi_Version = ''9.9'', pi_InstallLocation = ''/Applications'',
      pi_Identifier = ''com.example.pkg'',
      pi_Bundles = [bundleOne, bundleTwo, bundleHelper]\<rparr>"

text \<open>
  Two qualifying bundles without an id: the id of the second is U+00A0 and its version is
  U+3000 and a line feed, white space only.
\<close>

definition bundleNoID :: BundleInfo where
  "bundleNoID =
     \<lparr>bi_Path = ''One.app'', bi_ID = [],
      bi_CFBundleShortVersionString = ''1.0'', bi_CFBundleDisplayName = ''One'',
      bi_CFBundleIdentifier = [], bi_CFBundleName = ''one'',
      bi_LSMinimumSystemVersion = ''10.13''\<rparr>"

definition bundleBlank :: BundleInfo where
  "bundleBlank =
     \<lparr>bi_Path = ''Applications/Two.app'', bi_ID = [CHR 0xC2, CHR 0xA0],
      bi_CFBundleShortVersionString = [CHR 0xE3, CHR 0x80, CHR 0x80, CHR 0x0A],
      bi_CFBundleDisplayName = ''Two'',
      bi_CFBundleIdentifier = [], bi_CFBundleName = ''two'',
      bi_LSMinimumSystemVersion = ''11.0''\<rparr>"

definition anonymousPackageInfo :: PackageInfo where
  "anonymousPackageInfo =
     \<lparr>pi_Version = ''9.9'', pi_InstallLocation = [],
      pi_Identifier = ''com.example.pkg'',
      pi_Bundles = [bundleNoID, bundleBlank]\<rparr>"

lemma trimLeading_step:
  "trimLeading encs s =
     (case find (HasPrefix s) encs of
        None \<Rightarrow> s
      | Some w \<Rightarrow> if w = [] then s else trimLeading encs (drop (length w) s))"
  by (subst trimLeading.simps) (simp add: leadingLen_def split: option.split)

lemmas path_eval =
  HasPrefix_def HasSuffix_def TrimPrefix_def Clean_def Join_def cleanStep_def filepathSplit_def
  isValidAppFilePath_def installPathOf_def qualifies_def Let_def

lemmas trim_eval =
  sanitizeBundleString_def TrimSpace_def spaceEncodings_def trimLeading_step HasPrefix_def

lemmas example_defs =
  examplePackageInfo_def anonymousPackageInfo_def bundleOne_def bundleTwo_def bundleHelper_def
  bundleNoID_def bundleBlank_def

lemma qualifies_examples:
  "qualifies examplePackageInfo bundleOne" "qualifies examplePackageInfo bundleTwo"
  "\<not> qualifies examplePackageInfo bundleHelper"
  "qualifies anonymousPackageInfo bundleNoID" "qualifies anonymousPackageInfo bundleBlank"
  by (simp_all add: example_defs path_eval)

lemma bundles_examples:
  "pi_Bundles examplePackageInfo = [bundleOne, bundleTwo, bundleHelper]"
  "pi_Bundles anonymousPackageInfo = [bundleNoID, bundleBlank]"
  by (simp_all add: examplePackageInfo_def anonymousPackageInfo_def)

lemma sanitized_examples:
  "sanitizeBundleString (bi_ID bundleOne) = ''com.example.one''"
  "sanitizeBundleString (bi_ID bundleTwo) = ''com.example.two''"
  "sanitizeBundleString (bi_ID bundleHelper) = ''com.example.one''"
  "sanitizeBundleString (bi_CFBundleShortVersionString bundleTwo) = ''2.0''"
  "sanitizeBundleString (bi_CFBundleDisplayName bundleTwo) = ''Two''"
  "sanitizeBundleString (bi_CFBundleName bundleTwo) = ''two''"
  "sanitizeBundleString (bi_LSMinimumSystemVersion bundleTwo) = ''11.0''"
  "sanitizeBundleString (bi_ID bundleNoID) = []"
  "sanitizeBundleString (bi_ID bundleBlank) = []"
  "sanitizeBundleString (bi_CFBundleShortVersionString bundleBlank) = []"
  "sanitizeBundleString (pi_Version anonymousPackageInfo) = ''9.9''"
  "sanitizeBundleString (pi_Identifier anonymousPackageInfo) = ''com.example.pkg''"
  by (simp_all add: example_defs trim_eval)

lemma lastQualifying_example: "lastQualifying examplePackageInfo = Some bundleTwo"
  by (simp add: lastQualifying_def qualifies_examples bundles_examples)

lemma lastQualifying_anonymous: "lastQualifying anonymousPackageInfo = Some bundleBlank"
  by (simp add: lastQualifying_def qualifies_examples bundles_examples)

lemma bundleIDs_examples:
  "bundleIDs examplePackageInfo = {''com.example.one'', ''com.example.two''}"
  "bundleIDs anonymousPackageInfo = {}"
  by (auto simp: bundleIDs_def bundles_examples sanitized_examples)

lemma rearranges_rev: "rearranges rev"
  by (simp add: rearranges_def)

subsection \<open>The paths that qualify\<close>

lemma filepathSplit_append: "fst (filepathSplit s) @ snd (filepathSplit s) = s"
proof -
  have "rev (takeWhile (\<lambda>c. c \<noteq> CHR ''/'') (rev s) @ dropWhile (\<lambda>c. c \<noteq> CHR ''/'') (rev s)) = s"
    by simp
  then show ?thesis by (simp add: filepathSplit_def del: takeWhile_dropWhile_id)
qed

lemma filepathSplit_file: "CHR ''/'' \<notin> set (snd (filepathSplit s))"
  using set_takeWhileD[of "CHR ''/''" "\<lambda>c. c \<noteq> CHR ''/''" "rev s"]
  by (auto simp: filepathSplit_def)

lemma filepathSplit_dir_empty: "fst (filepathSplit s) = [] \<longleftrightarrow> CHR ''/'' \<notin> set s"
  by (auto simp: filepathSplit_def dropWhile_eq_Nil_conv)

lemma takeWhile_upto:
  "\<forall>c\<in>set xs. c \<noteq> x \<Longrightarrow> takeWhile (\<lambda>c. c \<noteq> x) (xs @ x # ys) = xs"
  by (induction xs) simp_all

lemma dropWhile_upto:
  "\<forall>c\<in>set xs. c \<noteq> x \<Longrightarrow> dropWhile (\<lambda>c. c \<noteq> x) (xs @ x # ys) = x # ys"
  by (induction xs) simp_all

lemma filepathSplit_Applications:
  assumes "CHR ''/'' \<notin> set fname"
  shows "filepathSplit (''Applications/'' @ fname) = (''Applications/'', fname)"
proof -
  have all: "\<forall>c\<in>set (rev fname). c \<noteq> CHR ''/''" using assms by auto
  have r: "rev (''Applications/'' @ fname) = rev fname @ CHR ''/'' # rev ''Applications''"
    by simp
  show ?thesis
    unfolding filepathSplit_def r takeWhile_upto[OF all] dropWhile_upto[OF all] by simp
qed

lemma isValidAppFilePath_iff:
  "snd (isValidAppFilePath s) \<longleftrightarrow>
     CHR ''/'' \<notin> set s \<or>
     (\<exists>fname. s = ''Applications/'' @ fname \<and> CHR ''/'' \<notin> set fname \<and> HasSuffix fname ''.app'')"
proof
  assume v: "snd (isValidAppFilePath s)"
  obtain dir fname where sp: "filepathSplit s = (dir, fname)" by (cases "filepathSplit s")
  have app: "dir @ fname = s" and nf: "CHR ''/'' \<notin> set fname"
    using filepathSplit_append[of s] filepathSplit_file[of s] sp by simp_all
  show "CHR ''/'' \<notin> set s \<or>
     (\<exists>fname. s = ''Applications/'' @ fname \<and> CHR ''/'' \<notin> set fname \<and> HasSuffix fname ''.app'')"
  proof (cases "dir = []")
    case True
    then show ?thesis using app nf by auto
  next
    case False
    with v sp have "HasSuffix fname ''.app'' \<and> dir = ''Applications/''"
      by (auto simp: isValidAppFilePath_def split: if_splits)
    then show ?thesis using app nf by auto
  qed
next
  assume "CHR ''/'' \<notin> set s \<or>
     (\<exists>fname. s = ''Applications/'' @ fname \<and> CHR ''/'' \<notin> set fname \<and> HasSuffix fname ''.app'')"
  then show "snd (isValidAppFilePath s)"
  proof
    assume ns: "CHR ''/'' \<notin> set s"
    then have "fst (filepathSplit s) = []" by (simp add: filepathSplit_dir_empty)
    moreover from this have "snd (filepathSplit s) = s" using filepathSplit_append[of s] by simp
    ultimately have "filepathSplit s = ([], s)" by (cases "filepathSplit s") simp
    then show ?thesis by (simp add: isValidAppFilePath_def)
  next
    assume "\<exists>fname. s = ''Applications/'' @ fname \<and> CHR ''/'' \<notin> set fname \<and> HasSuffix fname ''.app''"
    then obtain fname where f: "s = ''Applications/'' @ fname" "CHR ''/'' \<notin> set fname"
      "HasSuffix fname ''.app''" by blast
    show ?thesis
      unfolding f(1) isValidAppFilePath_def filepathSplit_Applications[OF f(2)]
      using f(3) by simp
  qed
qed

text \<open>
  Claim C4, as amended.  For every PackageInfo document: a bundle qualifies when its path has
  no directory component, or is a file name ending in \<open>.app\<close> directly under \<open>Applications/\<close>; when
  bundles qualify, the last qualifying bundle of the forward pass gives name, identifier,
  version, display name, bundle name and minimum OS version, except that an identifier or a
  version that sanitizes to the empty string is replaced by the top-level one, and an empty
  name by the last component of the identifier.  The package ids have no duplicates and
  are, in whatever order the map is ranged over, the non-empty sanitized bundle ids of all
  bundles, except that when there is no such id they are the resolved identifier alone (or
  nothing when that is empty too).
\<close>

theorem packageinfo_last_qualifying_wins:
  "(qualifies p bundle \<longleftrightarrow>
      CHR ''/'' \<notin> set (installPathOf p bundle) \<or>
      (\<exists>fname. installPathOf p bundle = ''Applications/'' @ fname \<and> CHR ''/'' \<notin> set fname \<and>
         HasSuffix fname ''.app'')) \<and>
   (\<forall>b. lastQualifying p = Some b \<longrightarrow>
      v_name (getPackageInfo rangeOrder p) =
        (if fst (isValidAppFilePath (installPathOf p b)) = []
         then last (Split (v_identifier (getPackageInfo rangeOrder p)) CHR ''.'')
         else fst (isValidAppFilePath (installPathOf p b))) \<and>
      v_identifier (getPackageInfo rangeOrder p) =
        (if sanitizeBundleString (bi_ID b) = [] then sanitizeBundleString (pi_Identifier p)
         else sanitizeBundleString (bi_ID b)) \<and>
      v_version (getPackageInfo rangeOrder p) =
        (if sanitizeBundleString (bi_CFBundleShortVersionString b) = []
         then sanitizeBundleString (pi_Version p)
         else sanitizeBundleString (bi_CFBundleShortVersionString b)) \<and>
      v_displayName (getPackageInfo rangeOrder p) = sanitizeBundleString (bi_CFBundleDisplayName b) \<and>
      v_bundleName (getPackageInfo rangeOrder p) = sanitizeBundleString (bi_CFBundleName b) \<and>
      v_minOSVersion (getPackageInfo rangeOrder p) =
        sanitizeBundleString (bi_LSMinimumSystemVersion b)) \<and>
   (rearranges rangeOrder \<longrightarrow>
      distinct (v_packageIDs (getPackageInfo rangeOrder p)) \<and>
      set (v_packageIDs (getPackageInfo rangeOrder p)) =
        (if bundleIDs p = {}
         then (if v_identifier (getPackageInfo rangeOrder p) = [] then {}
               else {v_identifier (getPackageInfo rangeOrder p)})
         else bundleIDs p))"
proof (intro conjI allI impI)
  show "qualifies p bundle \<longleftrightarrow>
      CHR ''/'' \<notin> set (installPathOf p bundle) \<or>
      (\<exists>fname. installPathOf p bundle = ''Applications/'' @ fname \<and> CHR ''/'' \<notin> set fname \<and>
         HasSuffix fname ''.app'')"
    unfolding qualifies_def by (rule isValidAppFilePath_iff)
next
  fix b assume lq: "lastQualifying p = Some b"
  note lf = loop_fields[OF lq]
  show "v_name (getPackageInfo rangeOrder p) =
        (if fst (isValidAppFilePath (installPathOf p b)) = []
         then last (Split (v_identifier (getPackageInfo rangeOrder p)) CHR ''.'')
         else fst (isValidAppFilePath (installPathOf p b)))"
    using lf by (simp add: getPackageInfo_name)
  show "v_identifier (getPackageInfo rangeOrder p) =
        (if sanitizeBundleString (bi_ID b) = [] then sanitizeBundleString (pi_Identifier p)
         else sanitizeBundleString (bi_ID b))"
    using lf by (simp add: getPackageInfo_identifier)
  show "v_version (getPackageInfo rangeOrder p) =
        (if sanitizeBundleString (bi_CFBundleShortVersionString b) = []
         then sanitizeBundleString (pi_Version p)
         else sanitizeBundleString (bi_CFBundleShortVersionString b))"
    using lf by (simp add: getPackageInfo_version)
  show "v_displayName (getPackageInfo rangeOrder p) = sanitizeBundleString (bi_CFBundleDisplayName b)"
    "v_bundleName (getPackageInfo rangeOrder p) = sanitizeBundleString (bi_CFBundleName b)"
    "v_minOSVersion (getPackageInfo rangeOrder p) = sanitizeBundleString (bi_LSMinimumSystemVersion b)"
    using lf by (simp_all add: getPackageInfo_others)
next
  assume r: "rearranges rangeOrder"
  have ro: "distinct (rangeOrder (v_packageIDSet (bundlesLoop p)))"
    "set (rangeOrder (v_packageIDSet (bundlesLoop p))) = bundleIDs p"
    using r packageIDSet_bundlesLoop[of p] by (simp_all add: rearranges_def)
  show "distinct (v_packageIDs (getPackageInfo rangeOrder p))"
    using ro(1) by (simp add: getPackageInfo_packageIDs)
  have "rangeOrder (v_packageIDSet (bundlesLoop p)) = [] \<longleftrightarrow> bundleIDs p = {}"
    using ro(2) by auto
  then show "set (v_packageIDs (getPackageInfo rangeOrder p)) =
        (if bundleIDs p = {}
         then (if v_identifier (getPackageInfo rangeOrder p) = [] then {}
               else {v_identifier (getPackageInfo rangeOrder p)})
         else bundleIDs p)"
    using ro(2) by (simp add: getPackageInfo_packageIDs)
qed

theorem packageinfo_last_qualifying_wins_witness:
  "qualifies examplePackageInfo bundleTwo \<and>
   installPathOf examplePackageInfo bundleTwo = ''Applications/Two.app'' \<and>
   lastQualifying examplePackageInfo = Some bundleTwo \<and>
   rearranges rev \<and>
   v_name (getPackageInfo rev examplePackageInfo) = ''Two.app'' \<and>
   v_identifier (getPackageInfo rev examplePackageInfo) = ''com.example.two'' \<and>
   v_version (getPackageInfo rev examplePackageInfo) = ''2.0'' \<and>
   v_displayName (getPackageInfo rev examplePackageInfo) = ''Two'' \<and>
   v_bundleName (getPackageInfo rev examplePackageInfo) = ''two'' \<and>
   v_minOSVersion (getPackageInfo rev examplePackageInfo) = ''11.0'' \<and>
   distinct (v_packageIDs (getPackageInfo rev examplePackageInfo)) \<and>
   set (v_packageIDs (getPackageInfo rev examplePackageInfo)) = {''com.example.one'', ''com.example.two''}"
proof -
  have ip: "installPathOf examplePackageInfo bundleTwo = ''Applications/Two.app''"
    by (simp add: example_defs path_eval)
  have path: "isValidAppFilePath ''Applications/Two.app'' = (''Two.app'', True)"
    by (simp add: path_eval)
  note main = packageinfo_last_qualifying_wins[of examplePackageInfo bundleTwo rev]
  have ex: "\<exists>fname. ''Applications/Two.app'' = ''Applications/'' @ fname \<and>
      CHR ''/'' \<notin> set fname \<and> HasSuffix fname ''.app''"
    by (rule exI[of _ "''Two.app''"]) (simp add: HasSuffix_def)
  from main have eq: "qualifies examplePackageInfo bundleTwo \<longleftrightarrow>
      CHR ''/'' \<notin> set ''Applications/Two.app'' \<or>
      (\<exists>fname. ''Applications/Two.app'' = ''Applications/'' @ fname \<and>
         CHR ''/'' \<notin> set fname \<and> HasSuffix fname ''.app'')"
    unfolding ip by (rule conjunct1)
  have q: "qualifies examplePackageInfo bundleTwo"
    by (rule iffD2[OF eq disjI2[OF ex]])
  from main lastQualifying_example have fields:
    "v_name (getPackageInfo rev examplePackageInfo) = ''Two.app''"
    "v_identifier (getPackageInfo rev examplePackageInfo) = ''com.example.two''"
    "v_version (getPackageInfo rev examplePackageInfo) = ''2.0''"
    "v_displayName (getPackageInfo rev examplePackageInfo) = ''Two''"
    "v_bundleName (getPackageInfo rev examplePackageInfo) = ''two''"
    "v_minOSVersion (getPackageInfo rev examplePackageInfo) = ''11.0''"
    by (simp_all add: ip path sanitized_examples)
  from main rearranges_rev have ids:
    "distinct (v_packageIDs (getPackageInfo rev examplePackageInfo))"
    "set (v_packageIDs (getPackageInfo rev examplePackageInfo)) = {''com.example.one'', ''com.example.two''}"
    by (simp_all add: bundleIDs_examples)
  from q ip lastQualifying_example rearranges_rev fields ids show ?thesis by simp
qed

text \<open>
  Claim C4 as stated fails on a document with two qualifying bundles whose ids sanitize to
  the empty string: the package ids are the top-level identifier, which is no bundle id;
  and the version is the top-level version, not the sanitized version of the last
  qualifying bundle, which is empty.
\<close>

theorem packageinfo_ids_fallback_counterexample:
  "lastQualifying anonymousPackageInfo = Some bundleBlank \<and>
   v_packageIDs (getPackageInfo (\<lambda>ks. ks) anonymousPackageInfo) = [''com.example.pkg''] \<and>
   bundleIDs anonymousPackageInfo = {} \<and>
   set (v_packageIDs (getPackageInfo (\<lambda>ks. ks) anonymousPackageInfo)) \<noteq> bundleIDs anonymousPackageInfo \<and>
   v_version (getPackageInfo (\<lambda>ks. ks) anonymousPackageInfo) = ''9.9'' \<and>
   sanitizeBundleString (bi_CFBundleShortVersionString bundleBlank) = [] \<and>
   v_version (getPackageInfo (\<lambda>ks. ks) anonymousPackageInfo) \<noteq>
     sanitizeBundleString (bi_CFBundleShortVersionString bundleBlank)"
proof -
  have loop: "v_packageIDSet (bundlesLoop anonymousPackageInfo) = []"
    using packageIDSet_bundlesLoop(1)[of anonymousPackageInfo] by (simp add: bundleIDs_examples)
  have lf: "v_identifier (bundlesLoop anonymousPackageInfo) = []"
    "v_version (bundlesLoop anonymousPackageInfo) = []"
    using loop_fields[OF lastQualifying_anonymous] by (simp_all add: sanitized_examples)
  have i: "v_identifier (getPackageInfo (\<lambda>ks. ks) anonymousPackageInfo) = ''com.example.pkg''"
    using lf by (simp add: getPackageInfo_identifier sanitized_examples)
  have v: "v_version (getPackageInfo (\<lambda>ks. ks) anonymousPackageInfo) = ''9.9''"
    using lf by (simp add: getPackageInfo_version sanitized_examples)
  from i v show ?thesis
    by (simp add: getPackageInfo_packageIDs loop bundleIDs_examples lastQualifying_anonymous
          sanitized_examples)
qed

theorem packageinfo_fallback_on_empty_witness:
  "lastQualifying anonymousPackageInfo = Some bundleBlank \<and>
   sanitizeBundleString (bi_CFBundleShortVersionString bundleBlank) = [] \<and>
   v_version (getPackageInfo rev anonymousPackageInfo) = ''9.9'' \<and>
   v_identifier (getPackageInfo rev anonymousPackageInfo) = ''com.example.pkg''"
  using packageinfo_fallback_on_empty[of rev anonymousPackageInfo]
  by (simp add: lastQualifying_anonymous sanitized_examples)

end
